theory Spec2Isabelle
  imports Main "HOL-Library.AList"
begin

section \<open>Common types\<close>

text \<open>
  A status is an integer (the builder converts it with \<open>int(from)\<close>). Function values
  and interface values of the Go code (consumer functions, stores, clocks) are opaque to the
  properties below; they are represented by a numeric handle, and a nil interface by
  \<open>None\<close>. A Go map is an association list with one entry per key, written with
  \<open>AList.update\<close> and read with \<open>map_of\<close>, so that \<open>len\<close> and
  \<open>range\<close> can be computed. A \<open>range\<close> over a Go map visits the entries in an
  order that is not specified; the order of the list stands for the order of one run.
\<close>

type_synonym Status = int
type_synonym handle = nat

section \<open>The builder (builder.go)\<close>

record options =
  pollingFrequency :: int
  parallelCount :: int
  errBackOff :: int
  lag :: int
  lagAlert :: int
  pauseAfterErrCount :: int

text \<open>\<open>var consumerOpts options\<close>: the zero value.\<close>

definition zero_options :: options where
  "zero_options = \<lparr>pollingFrequency = 0, parallelCount = 0, errBackOff = 0, lag = 0,
     lagAlert = 0, pauseAfterErrCount = 0\<rparr>"

text \<open>\<open>type Option func(*options)\<close>: an option rewrites the options it is given.\<close>

type_synonym Option = "options \<Rightarrow> options"

text \<open>\<open>for _, opt := range opts { opt(&o) }\<close>\<close>

fun apply_opts :: "Option list \<Rightarrow> options \<Rightarrow> options" where
  "apply_opts [] o' = o'"
| "apply_opts (opt # opts) o' = apply_opts opts (opt o')"

record consumerConfig =
  consumer :: handle
  c_pollingFrequency :: int
  c_parallelCount :: int
  c_errBackOff :: int
  c_lag :: int
  c_lagAlert :: int
  c_pauseAfterErrCount :: int

record timeout =
  TimerFunc :: handle
  TimeoutFunc :: handle

record timeouts =
  t_pollingFrequency :: int
  t_errBackOff :: int
  t_lagAlert :: int
  t_pauseAfterErrCount :: int
  transitions :: "timeout list"

definition zero_timeouts :: timeouts where
  "zero_timeouts = \<lparr>t_pollingFrequency = 0, t_errBackOff = 0, t_lagAlert = 0,
     t_pauseAfterErrCount = 0, transitions = []\<rparr>"

record pausedRecordsRetry =
  enabled :: bool
  resumeAfter :: int

text \<open>
  The workflow under construction, with the fields that \<open>NewBuilder\<close>, the
  \<open>Add...\<close> methods and \<open>Build\<close> write. \<open>statusGraph\<close> is the list of
  transitions added so far.
\<close>

record BWorkflow =
  name :: string
  clock :: "handle option"
  consumers :: "(Status \<times> consumerConfig) list"
  callback :: "(Status \<times> handle list) list"
  timeouts :: "(Status \<times> timeouts) list"
  statusGraph :: "(int \<times> int) list"
  eventStreamer :: "handle option"
  recordStore :: "handle option"
  scheduler :: "handle option"
  customDelete :: "handle option"
  timeoutStore :: "handle option"
  defaultOpts :: options
  outboxConfig :: handle
  logger_debugMode :: bool
  logger_inner :: "handle option"
  pausedRecordsRetry :: pausedRecordsRetry

text \<open>
  The panics of the builder, one constructor per message:
  \<open>AddStepExists s\<close> is "'AddStep(s,' already exists. Only one Step can be configured to
  consume the status", \<open>ParallelTimeout\<close> is "Cannot configure parallel timeout",
  \<open>LagTimeout\<close> is "Cannot configure lag for timeout" and \<open>TimeoutStoreMissing\<close> is
  "cannot configure timeouts without providing TimeoutStore for workflow".
  A builder method returns the panic it raised, if any, and the workflow as the call left it.
\<close>

datatype panic = AddStepExists Status | ParallelTimeout | LagTimeout | TimeoutStoreMissing

text \<open>
  \<open>NewBuilder\<close>: empty maps, a real clock and a logger on standard output (handles
  \<open>realClock\<close> and \<open>stdoutLogger\<close>); every other field has its zero value.
\<close>

definition NewBuilder :: "string \<Rightarrow> handle \<Rightarrow> handle \<Rightarrow> BWorkflow" where
  "NewBuilder nm realClock stdoutLogger =
     \<lparr>name = nm, clock = Some realClock, consumers = [], callback = [], timeouts = [],
      statusGraph = [], eventStreamer = None, recordStore = None, scheduler = None,
      customDelete = None, timeoutStore = None, defaultOpts = zero_options,
      outboxConfig = 0, logger_debugMode = False, logger_inner = Some stdoutLogger,
      pausedRecordsRetry = \<lparr>enabled = False, resumeAfter = 0\<rparr>\<rparr>"

text \<open>\<open>for _, to := range allowedDestinations { statusGraph.AddTransition(int(from), int(to)) }\<close>\<close>

definition AddTransitions :: "Status \<Rightarrow> Status list \<Rightarrow> (int \<times> int) list \<Rightarrow> (int \<times> int) list" where
  "AddTransitions from dests g = g @ map (\<lambda>to. (from, to)) dests"

definition AddStep :: "Status \<Rightarrow> handle \<Rightarrow> Status list \<Rightarrow> BWorkflow \<Rightarrow> panic option \<times> BWorkflow" where
  "AddStep from c allowedDestinations w =
     (if map_of (consumers w) from \<noteq> None then (Some (AddStepExists from), w)
      else
        let p = \<lparr>consumer = c, c_pollingFrequency = 0, c_parallelCount = 0, c_errBackOff = 0,
                 c_lag = 0, c_lagAlert = 0, c_pauseAfterErrCount = 0\<rparr>
        in (None, w\<lparr>statusGraph := AddTransitions from allowedDestinations (statusGraph w),
                      consumers := AList.update from p (consumers w)\<rparr>))"

text \<open>
  Reading a Go map at a missing key gives the zero value of the element type.
\<close>

definition zero_consumerConfig :: consumerConfig where
  "zero_consumerConfig = \<lparr>consumer = 0, c_pollingFrequency = 0, c_parallelCount = 0,
     c_errBackOff = 0, c_lag = 0, c_lagAlert = 0, c_pauseAfterErrCount = 0\<rparr>"

definition lookup_consumer :: "(Status \<times> consumerConfig) list \<Rightarrow> Status \<Rightarrow> consumerConfig" where
  "lookup_consumer m s = (case map_of m s of None \<Rightarrow> zero_consumerConfig | Some c \<Rightarrow> c)"

definition lookup_timeouts :: "(Status \<times> timeouts) list \<Rightarrow> Status \<Rightarrow> timeouts" where
  "lookup_timeouts m s = (case map_of m s of None \<Rightarrow> zero_timeouts | Some t \<Rightarrow> t)"

definition lookup_callback :: "(Status \<times> handle list) list \<Rightarrow> Status \<Rightarrow> handle list" where
  "lookup_callback m s = (case map_of m s of None \<Rightarrow> [] | Some cs \<Rightarrow> cs)"

text \<open>\<open>stepUpdater.WithOptions\<close>; the updater holds the status it was made for.\<close>

definition step_WithOptions :: "Status \<Rightarrow> Option list \<Rightarrow> BWorkflow \<Rightarrow> panic option \<times> BWorkflow" where
  "step_WithOptions from opts w =
     (let cons = lookup_consumer (consumers w) from;
          consumerOpts = apply_opts opts zero_options;
          cons' = cons\<lparr>c_pollingFrequency := pollingFrequency consumerOpts,
                       c_parallelCount := parallelCount consumerOpts,
                       c_errBackOff := errBackOff consumerOpts,
                       c_lag := lag consumerOpts,
                       c_lagAlert := lagAlert consumerOpts,
                       c_pauseAfterErrCount := pauseAfterErrCount consumerOpts\<rparr>
      in (None, w\<lparr>consumers := AList.update from cons' (consumers w)\<rparr>))"

definition AddCallback :: "Status \<Rightarrow> handle \<Rightarrow> Status list \<Rightarrow> BWorkflow \<Rightarrow> panic option \<times> BWorkflow" where
  "AddCallback from fn allowedDestinations w =
     (None, w\<lparr>statusGraph := AddTransitions from allowedDestinations (statusGraph w),
               callback := AList.update from (lookup_callback (callback w) from @ [fn]) (callback w)\<rparr>)"

definition AddTimeout :: "Status \<Rightarrow> handle \<Rightarrow> handle \<Rightarrow> Status list \<Rightarrow> BWorkflow \<Rightarrow> panic option \<times> BWorkflow" where
  "AddTimeout from timer tf allowedDestinations w =
     (let ts = lookup_timeouts (timeouts w) from;
          t = \<lparr>TimerFunc = timer, TimeoutFunc = tf\<rparr>;
          ts' = ts\<lparr>transitions := transitions ts @ [t]\<rparr>
      in (None, w\<lparr>statusGraph := AddTransitions from allowedDestinations (statusGraph w),
                    timeouts := AList.update from ts' (timeouts w)\<rparr>))"

text \<open>\<open>timeoutUpdater.WithOptions\<close>: both checks come before the write to the map.\<close>

definition timeout_WithOptions :: "Status \<Rightarrow> Option list \<Rightarrow> BWorkflow \<Rightarrow> panic option \<times> BWorkflow" where
  "timeout_WithOptions from opts w =
     (let tmo = lookup_timeouts (timeouts w) from;
          timeoutOpts = apply_opts opts zero_options
      in if parallelCount timeoutOpts \<noteq> 0 then (Some ParallelTimeout, w)
         else if lag timeoutOpts \<noteq> 0 then (Some LagTimeout, w)
         else
           let tmo' = tmo\<lparr>t_pollingFrequency := pollingFrequency timeoutOpts,
                          t_errBackOff := errBackOff timeoutOpts,
                          t_lagAlert := lagAlert timeoutOpts,
                          t_pauseAfterErrCount := pauseAfterErrCount timeoutOpts\<rparr>
           in (None, w\<lparr>timeouts := AList.update from tmo' (timeouts w)\<rparr>))"

text \<open>
  A sequence of builder calls, run in order until one panics. The updaters returned by
  \<open>AddStep\<close> and \<open>AddTimeout\<close> are named by the status they were created for.
\<close>

datatype builder_op =
    OpAddStep Status handle "Status list"
  | OpStepWithOptions Status "Option list"
  | OpAddCallback Status handle "Status list"
  | OpAddTimeout Status handle handle "Status list"
  | OpTimeoutWithOptions Status "Option list"

fun apply_op :: "builder_op \<Rightarrow> BWorkflow \<Rightarrow> panic option \<times> BWorkflow" where
  "apply_op (OpAddStep from c ds) w = AddStep from c ds w"
| "apply_op (OpStepWithOptions from opts) w = step_WithOptions from opts w"
| "apply_op (OpAddCallback from fn ds) w = AddCallback from fn ds w"
| "apply_op (OpAddTimeout from timer tf ds) w = AddTimeout from timer tf ds w"
| "apply_op (OpTimeoutWithOptions from opts) w = timeout_WithOptions from opts w"

fun apply_ops :: "builder_op list \<Rightarrow> BWorkflow \<Rightarrow> panic option \<times> BWorkflow" where
  "apply_ops [] w = (None, w)"
| "apply_ops (op # ops) w =
     (case apply_op op w of
        (Some p, w') \<Rightarrow> (Some p, w')
      | (None, w') \<Rightarrow> apply_ops ops w')"

subsection \<open>Build\<close>

record buildOptions =
  bo_clock :: "handle option"
  bo_customDelete :: "handle option"
  bo_debugMode :: bool
  bo_defaultOptions :: options
  bo_outboxConfig :: handle
  bo_timeoutStore :: "handle option"
  bo_logger :: "handle option"
  bo_autoPauseRetry :: pausedRecordsRetry

text \<open>
  \<open>defaultOutboxConfig()\<close>, \<open>defaultOptions()\<close> and \<open>defaultPausedRecordsRetry()\<close>
  are declared in other files; their values are parameters here.
\<close>

record defaults =
  defaultOutboxConfig :: handle
  defaultOptions :: options
  defaultPausedRecordsRetry :: pausedRecordsRetry

definition defaultBuildOptions :: "defaults \<Rightarrow> buildOptions" where
  "defaultBuildOptions d =
     \<lparr>bo_clock = None, bo_customDelete = None, bo_debugMode = False,
      bo_defaultOptions = defaultOptions d, bo_outboxConfig = defaultOutboxConfig d,
      bo_timeoutStore = None, bo_logger = None,
      bo_autoPauseRetry = defaultPausedRecordsRetry d\<rparr>"

type_synonym BuildOption = "buildOptions \<Rightarrow> buildOptions"

definition WithTimeoutStore :: "handle option \<Rightarrow> BuildOption" where
  "WithTimeoutStore s = (\<lambda>w. w\<lparr>bo_timeoutStore := s\<rparr>)"

definition WithClock :: "handle option \<Rightarrow> BuildOption" where
  "WithClock c = (\<lambda>bo. bo\<lparr>bo_clock := c\<rparr>)"

definition WithDebugMode :: BuildOption where
  "WithDebugMode = (\<lambda>bo. bo\<lparr>bo_debugMode := True\<rparr>)"

definition WithLogger :: "handle option \<Rightarrow> BuildOption" where
  "WithLogger l = (\<lambda>bo. bo\<lparr>bo_logger := l\<rparr>)"

definition WithDefaultOptions :: "Option list \<Rightarrow> BuildOption" where
  "WithDefaultOptions opts = (\<lambda>bo. bo\<lparr>bo_defaultOptions := apply_opts opts zero_options\<rparr>)"

definition WithCustomDelete :: "handle \<Rightarrow> BuildOption" where
  "WithCustomDelete fn = (\<lambda>bo. bo\<lparr>bo_customDelete := Some fn\<rparr>)"

definition WithPauseRetry :: "int \<Rightarrow> BuildOption" where
  "WithPauseRetry d = (\<lambda>bo. bo\<lparr>bo_autoPauseRetry := \<lparr>enabled = True, resumeAfter = d\<rparr>\<rparr>)"

definition DisablePauseRetry :: BuildOption where
  "DisablePauseRetry = (\<lambda>bo. bo\<lparr>bo_autoPauseRetry := (bo_autoPauseRetry bo)\<lparr>enabled := False\<rparr>\<rparr>)"

fun apply_build_opts :: "BuildOption list \<Rightarrow> buildOptions \<Rightarrow> buildOptions" where
  "apply_build_opts [] bo = bo"
| "apply_build_opts (opt # opts) bo = apply_build_opts opts (opt bo)"

text \<open>
  \<open>Build\<close> writes its arguments and the build options into the workflow first and
  checks the timeout store last, so a panic leaves those writes in place.
\<close>

definition Build :: "defaults \<Rightarrow> handle option \<Rightarrow> handle option \<Rightarrow> handle option \<Rightarrow>
    BuildOption list \<Rightarrow> BWorkflow \<Rightarrow> panic option \<times> BWorkflow" where
  "Build d es rs roleScheduler opts w =
     (let w1 = w\<lparr>eventStreamer := es, recordStore := rs, scheduler := roleScheduler\<rparr>;
          bo = apply_build_opts opts (defaultBuildOptions d);
          w2 = (if bo_clock bo \<noteq> None then w1\<lparr>clock := bo_clock bo\<rparr> else w1);
          w3 = (if bo_customDelete bo \<noteq> None then w2\<lparr>customDelete := bo_customDelete bo\<rparr> else w2);
          w4 = w3\<lparr>timeoutStore := bo_timeoutStore bo,
                  defaultOpts := bo_defaultOptions bo,
                  outboxConfig := bo_outboxConfig bo,
                  logger_debugMode := bo_debugMode bo,
                  pausedRecordsRetry := bo_autoPauseRetry bo\<rparr>;
          w5 = (if bo_logger bo \<noteq> None then w4\<lparr>logger_inner := bo_logger bo\<rparr> else w4)
      in if length (timeouts w5) > 0 \<and> timeoutStore w5 = None
         then (Some TimeoutStoreMissing, w5)
         else (None, w5))"

section \<open>The running workflow (workflow.go)\<close>

text \<open>
  Modelled from the spec: the \<open>State\<close> type, whose declaration is in another file. The
  spec lists the values a process can report as Unknown, Idle, Running and Shutdown;
  \<open>Stop\<close> and \<open>run\<close> name them \<open>StateUnknown\<close>, \<open>StateIdle\<close>,
  \<open>StateRunning\<close> and \<open>StateShutdown\<close>.
\<close>

datatype State = StateUnknown | StateShutdown | StateRunning | StateIdle

text \<open>
  Modelled from the spec: \<open>updateState\<close> and \<open>States\<close>, declared in another file.
  The spec says the internal-state map is guarded by a mutex and mutated only through
  \<open>updateState\<close>; \<open>updateState\<close> writes one entry and \<open>States\<close> returns the map as it
  is at the moment of the call.
\<close>

definition updateState :: "string \<Rightarrow> State \<Rightarrow> (string \<times> State) list \<Rightarrow> (string \<times> State) list" where
  "updateState processName s m = AList.update processName s m"

text \<open>
  A context is the context handed to \<open>Run\<close> (named by a number) or one derived from
  another by \<open>context.WithCancel\<close>. The cancel function that \<open>WithCancel\<close> returns is
  represented by the context it cancels.
\<close>

datatype Context = Outer nat | WithCancel Context

record wConsumerConfig =
  ParallelCount :: int
  consumerBody :: handle

record wConnectorConfig =
  cfg_parallelCount :: int
  cfg_body :: handle

text \<open>
  The goroutines that \<open>Run\<close> starts, with the arguments of each \<open>go\<close> statement
  (the workflow itself left out); \<open>go_consumer s p i n\<close> is \<open>go consumer(w, s, p, i, n)\<close>.
\<close>

datatype goroutine =
    go_consumer Status wConsumerConfig int int
  | go_timeoutPoller Status handle
  | go_timeoutAutoInserterConsumer Status handle
  | go_workflowConnectorConsumer wConnectorConfig int int
  | go_connectorConsumer wConnectorConfig int int

text \<open>
  What the role-leased loop does to the outside world, in order: writes to the state map,
  log lines, requests to the scheduler, sleeps, calls of the process function, increments of
  the process-error metric, releases of the lease, and the two ways out of the final
  \<open>select\<close>.
\<close>

datatype event =
    EvUpdateState string State
  | EvLogInfo string string
  | EvAwait string
  | EvLogError string
  | EvSleep int
  | EvProcess
  | EvProcessErrorsInc string string
  | EvCancel
  | EvLeaseDone
  | EvTimeAfter int

text \<open>
  The fields of \<open>Workflow\<close> that \<open>Run\<close>, \<open>run\<close> and \<open>Stop\<close> use. \<open>once\<close> is
  whether the \<open>sync.Once\<close> has fired. Three fields record effects that the Go struct does
  not hold: \<open>cancelled\<close>, the contexts whose cancel function has been called;
  \<open>launched\<close>, the goroutines started; \<open>events\<close>, the trace of the loop.
\<close>

record Workflow =
  Name :: string
  ctx :: "Context option"
  cancel :: "Context option"
  calledRun :: bool
  once :: bool
  w_consumers :: "(Status \<times> wConsumerConfig list) list"
  w_timeouts :: "(Status \<times> handle) list"
  workflowConnectorConfigs :: "wConnectorConfig list"
  connectorConfigs :: "wConnectorConfig list"
  internalState :: "(string \<times> State) list"
  debugMode :: bool
  cancelled :: "Context list"
  launched :: "goroutine list"
  events :: "event list"

subsection \<open>Run\<close>

text \<open>
  The loop counter of \<open>for i := 1; i <= n; i++\<close> is a Go \<open>int\<close>, taken here as the
  64-bit signed integer of the usual platforms: it ranges from \<open>MinInt\<close> to \<open>MaxInt\<close>
  and \<open>i++\<close> wraps around from the largest value to the smallest.
\<close>

definition MaxInt :: int where
  "MaxInt = 2 ^ 63 - 1"

definition MinInt :: int where
  "MinInt = - (2 ^ 63)"

definition incr :: "int \<Rightarrow> int" where
  "incr i = (i + 1 + 2 ^ 63) mod 2 ^ 64 - 2 ^ 63"

text \<open>
  \<open>for i := 1; i <= n; i++ { go g(i, n) }\<close>, with the goroutines started so far in
  \<open>started\<close>. The loop need not end: when \<open>n\<close> is \<open>MaxInt\<close> the test \<open>i <= n\<close>
  holds for every value of the counter. A loop that never ends has the value \<open>None\<close>.
\<close>

partial_function (option) shard_loop ::
    "(int \<Rightarrow> int \<Rightarrow> goroutine) \<Rightarrow> int \<Rightarrow> int \<Rightarrow> goroutine list \<Rightarrow> goroutine list option" where
  "shard_loop g i n started =
     (if i \<le> n then shard_loop g (incr i) n (started @ [g i n]) else Some started)"

definition launch :: "(int \<Rightarrow> int \<Rightarrow> goroutine) \<Rightarrow> int \<Rightarrow> goroutine list option" where
  "launch g count = (if count < 2 then Some [g 1 1] else shard_loop g 1 count [])"

text \<open>
  A \<open>range\<close> loop whose body starts goroutines: the bodies run in order, and if one of
  them never ends neither does the loop.
\<close>

fun launch_all :: "('a \<Rightarrow> goroutine list option) \<Rightarrow> 'a list \<Rightarrow> goroutine list option" where
  "launch_all f [] = Some []"
| "launch_all f (x # xs) =
     (case f x of
        None \<Rightarrow> None
      | Some gs \<Rightarrow> (case launch_all f xs of None \<Rightarrow> None | Some hs \<Rightarrow> Some (gs @ hs)))"

definition launch_consumers :: "Status \<times> wConsumerConfig list \<Rightarrow> goroutine list option" where
  "launch_consumers = (\<lambda>(currentStatus, cs).
     launch_all (\<lambda>p. launch (go_consumer currentStatus p) (ParallelCount p)) cs)"

definition launch_timeouts :: "Status \<times> handle \<Rightarrow> goroutine list option" where
  "launch_timeouts = (\<lambda>(status, ts).
     Some [go_timeoutPoller status ts, go_timeoutAutoInserterConsumer status ts])"

text \<open>
  The function handed to \<open>once.Do\<close>: the four loops in the order of the source. The
  value is \<open>None\<close> when one of the loops never ends.
\<close>

definition Run_body :: "Context \<Rightarrow> Workflow \<Rightarrow> Workflow option" where
  "Run_body c w =
     (let c' = WithCancel c;
          w1 = w\<lparr>ctx := Some c', cancel := Some c', calledRun := True\<rparr>
      in case launch_all launch_consumers (w_consumers w1) of
           None \<Rightarrow> None
         | Some cs \<Rightarrow>
        (case launch_all launch_timeouts (w_timeouts w1) of
           None \<Rightarrow> None
         | Some ts \<Rightarrow>
        (case launch_all (\<lambda>config. launch (go_workflowConnectorConsumer config) (cfg_parallelCount config))
                (workflowConnectorConfigs w1) of
           None \<Rightarrow> None
         | Some wcs \<Rightarrow>
        (case launch_all (\<lambda>config. launch (go_connectorConsumer config) (cfg_parallelCount config))
                (connectorConfigs w1) of
           None \<Rightarrow> None
         | Some ccs \<Rightarrow> Some (w1\<lparr>launched := launched w1 @ cs @ ts @ wcs @ ccs\<rparr>)))))"

text \<open>
  \<open>w.once.Do(...)\<close> runs its argument on the first call only, and marks the
  \<open>sync.Once\<close> as done when the argument returns. \<open>Run\<close> returns the workflow as the
  call left it, or \<open>None\<close> when the call never returns.
\<close>

definition Run :: "Context \<Rightarrow> Workflow \<Rightarrow> Workflow option" where
  "Run c w =
     (if once w then Some w
      else case Run_body c w of None \<Rightarrow> None | Some w' \<Rightarrow> Some (w'\<lparr>once := True\<rparr>))"

text \<open>Calls of \<open>Run\<close> one after the other; a call is made when the one before has returned.\<close>

fun Runs :: "Context list \<Rightarrow> Workflow \<Rightarrow> Workflow option" where
  "Runs [] w = Some w"
| "Runs (c # cs) w = (case Run c w of None \<Rightarrow> None | Some w' \<Rightarrow> Runs cs w')"

subsection \<open>The role-leased loop\<close>

text \<open>
  How \<open>run\<close> classifies an error value: nil, a cancellation
  (\<open>errors.IsAny(err, context.Canceled)\<close>), or any other error.
\<close>

datatype err = ErrNil | ErrCanceled | ErrOther

text \<open>
  What the environment answers during one pass through the loop body: whether the root
  context is already cancelled, what \<open>scheduler.Await\<close> returns, what the process function
  returns, and whether the leased context ends before the backoff timer in the final
  \<open>select\<close>. A pass reads only the answers it reaches.
\<close>

record iteration =
  rootErr :: bool
  awaitErr :: err
  processErr :: err
  leaseDone :: bool

definition emit :: "event \<Rightarrow> Workflow \<Rightarrow> Workflow" where
  "emit e w = w\<lparr>events := events w @ [e]\<rparr>"

definition report :: "string \<Rightarrow> State \<Rightarrow> Workflow \<Rightarrow> Workflow" where
  "report processName s w =
     emit (EvUpdateState processName s) (w\<lparr>internalState := updateState processName s (internalState w)\<rparr>)"

text \<open>One pass through the body of the \<open>for\<close> loop; \<open>True\<close> means \<open>return\<close>.\<close>

definition run_iter :: "string \<Rightarrow> string \<Rightarrow> int \<Rightarrow> iteration \<Rightarrow> Workflow \<Rightarrow> bool \<times> Workflow" where
  "run_iter role processName backOff it w =
     (if rootErr it then (True, if debugMode w then emit (EvLogInfo role processName) w else w)
      else
        let w1 = emit (EvAwait role) w in
        (case awaitErr it of
          ErrCanceled \<Rightarrow> (True, w1)
        | ErrOther \<Rightarrow> (False, emit (EvSleep backOff) (emit (EvLogError ''error awaiting role'') w1))
        | ErrNil \<Rightarrow>
            (let w2 = report processName StateRunning w1;
                 w3 = emit EvProcess w2
             in (case processErr it of
                   ErrCanceled \<Rightarrow> (False, w3)
                 | ErrNil \<Rightarrow> (False, emit EvCancel w3)
                 | ErrOther \<Rightarrow>
                     (let w4 = emit (EvProcessErrorsInc (Name w3) processName)
                                (emit (EvLogError ''process error'') w3)
                      in if leaseDone it then (False, emit EvCancel (emit EvLeaseDone w4))
                         else (False, emit EvCancel (emit (EvTimeAfter backOff) w4)))))))"

text \<open>
  The loop over the answers of the environment. It may run forever; when the answers run
  out before a \<open>return\<close> the loop is still running and the result says so (\<open>False\<close>).
\<close>

fun run_loop :: "string \<Rightarrow> string \<Rightarrow> int \<Rightarrow> iteration list \<Rightarrow> Workflow \<Rightarrow> bool \<times> Workflow" where
  "run_loop role processName backOff [] w = (False, w)"
| "run_loop role processName backOff (it # its) w =
     (case run_iter role processName backOff it w of
        (True, w') \<Rightarrow> (True, w')
      | (False, w') \<Rightarrow> run_loop role processName backOff its w')"

text \<open>\<open>run\<close>: the deferred \<open>updateState(processName, StateShutdown)\<close> runs at the return.\<close>

definition run :: "string \<Rightarrow> string \<Rightarrow> int \<Rightarrow> iteration list \<Rightarrow> Workflow \<Rightarrow> bool \<times> Workflow" where
  "run role processName backOff its w =
     (case run_loop role processName backOff its (report processName StateIdle w) of
        (True, w') \<Rightarrow> (True, report processName StateShutdown w')
      | (False, w') \<Rightarrow> (False, w'))"

text \<open>
  Reading a trace: the state a process last reported before each request for a lease
  (\<open>cur\<close> is the state on record when the trace starts).
\<close>

fun states_at_await :: "string \<Rightarrow> State \<Rightarrow> event list \<Rightarrow> State list" where
  "states_at_await pn cur [] = []"
| "states_at_await pn cur (EvUpdateState p s # es) =
     states_at_await pn (if p = pn then s else cur) es"
| "states_at_await pn cur (EvAwait r # es) = cur # states_at_await pn cur es"
| "states_at_await pn cur (e # es) = states_at_await pn cur es"

subsection \<open>Stop\<close>

text \<open>The \<open>switch\<close> in \<open>Stop\<close>: Unknown and Shutdown are skipped, anything else counts.\<close>

fun counts_as_running :: "State \<Rightarrow> bool" where
  "counts_as_running StateUnknown = False"
| "counts_as_running StateShutdown = False"
| "counts_as_running s = True"

definition runningProcesses :: "(string \<times> State) list \<Rightarrow> nat" where
  "runningProcesses m = length (filter (\<lambda>(p, s). counts_as_running s) m)"

text \<open>
  The wait loop reads \<open>w.States()\<close> again and again while the goroutines write the map.
  The list \<open>obs\<close> holds what the successive calls return. The loop may never end; when the
  observations run out it is still waiting (\<open>Blocked\<close>). \<open>Returned k\<close> means \<open>Stop\<close>
  returned after \<open>k\<close> calls of \<open>States\<close>.
\<close>

datatype stop_result = Returned nat | Blocked

fun Stop_wait :: "(string \<times> State) list list \<Rightarrow> nat \<Rightarrow> stop_result" where
  "Stop_wait [] k = Blocked"
| "Stop_wait (m # obs) k =
     (if runningProcesses m = 0 then Returned (Suc k) else Stop_wait obs (Suc k))"

definition Stop :: "(string \<times> State) list list \<Rightarrow> Workflow \<Rightarrow> stop_result \<times> Workflow" where
  "Stop obs w =
     (case cancel w of
        None \<Rightarrow> (Returned 0, w)
      | Some c \<Rightarrow> (Stop_wait obs 0, w\<lparr>cancelled := c # cancelled w\<rparr>))"

text \<open>
  The state maps that can arise: the map is empty when the workflow is built, and the only
  writes are those of \<open>run\<close>, which reports Idle, Running or Shutdown.
\<close>

inductive reachable_states :: "(string \<times> State) list \<Rightarrow> bool" where
  initial: "reachable_states []"
| idle: "reachable_states m \<Longrightarrow> reachable_states (updateState p StateIdle m)"
| running: "reachable_states m \<Longrightarrow> reachable_states (updateState p StateRunning m)"
| shutdown: "reachable_states m \<Longrightarrow> reachable_states (updateState p StateShutdown m)"

subsection \<open>update\<close>

text \<open>
  The fields of the wire record that \<open>update\<close> reads or writes. \<open>ID\<close> is an
  \<open>int64\<close> that is only copied.
\<close>

record WireRecord =
  ID :: int
  RunID :: string
  WorkflowName :: string
  ForeignID :: string
  Status :: int

text \<open>
  Modelled from the spec: the header names, declared in another file. The spec lists the
  headers required on every published event as workflow-foreign-id, workflow-name, topic and
  run-id.
\<close>

definition HeaderWorkflowForeignID :: string where
  "HeaderWorkflowForeignID = ''workflow-foreign-id''"

definition HeaderWorkflowName :: string where
  "HeaderWorkflowName = ''workflow-name''"

definition HeaderTopic :: string where
  "HeaderTopic = ''topic''"

definition HeaderRunID :: string where
  "HeaderRunID = ''run-id''"

text \<open>
  The calls made on the event streamer and its producer. The errors that \<open>Send\<close> and
  \<open>Close\<close> return are answers of the environment (\<open>None\<close> is nil).
\<close>

datatype stream_call =
    NewProducer string
  | Send int int "(string \<times> string) list"
  | Close

record streamer =
  sendErr :: "handle option"
  closeErr :: "handle option"

text \<open>
  The function literal that \<open>update\<close> hands to the store. \<open>Topic\<close>, declared in another
  file, is a parameter. The result is the error returned, the record as the closure left it,
  and the calls made.
\<close>

definition publish :: "(string \<Rightarrow> int \<Rightarrow> string) \<Rightarrow> streamer \<Rightarrow> WireRecord \<Rightarrow> int \<Rightarrow>
    handle option \<times> WireRecord \<times> stream_call list" where
  "publish Topic str wr0 id' =
     (let wr = wr0\<lparr>ID := id'\<rparr>;
          topic = Topic (WorkflowName wr) (Status wr);
          headers = [];
          headers = AList.update HeaderWorkflowForeignID (ForeignID wr) headers;
          headers = AList.update HeaderWorkflowName (WorkflowName wr) headers;
          headers = AList.update HeaderTopic topic headers;
          headers = AList.update HeaderRunID (RunID wr) headers;
          calls = [NewProducer topic, Send (ID wr) (Status wr) headers]
      in case sendErr str of
           Some e \<Rightarrow> (Some e, wr, calls)
         | None \<Rightarrow> (closeErr str, wr, calls @ [Close]))"

text \<open>
  \<open>update\<close> passes the record and the closure to \<open>store.Store\<close>; the store, an
  external service, is a parameter that receives both.
\<close>

definition update :: "(string \<Rightarrow> int \<Rightarrow> string) \<Rightarrow> streamer \<Rightarrow>
    (WireRecord \<Rightarrow> (WireRecord \<Rightarrow> int \<Rightarrow> handle option \<times> WireRecord \<times> stream_call list) \<Rightarrow> 'r) \<Rightarrow>
    WireRecord \<Rightarrow> 'r" where
  "update Topic str store wr = store wr (publish Topic str)"

subsection \<open>Example values\<close>

text \<open>
  A workflow that has not been run: two statuses with a step each (three shards for the
  first, one for the second) and one status with timeouts.
\<close>

definition example_workflow :: Workflow where
  "example_workflow =
     \<lparr>Name = ''wf'', ctx = None, cancel = None, calledRun = False, once = False,
      w_consumers = [(1, [\<lparr>ParallelCount = 3, consumerBody = 7\<rparr>]),
                     (2, [\<lparr>ParallelCount = 0, consumerBody = 8\<rparr>])],
      w_timeouts = [(1, 5)], workflowConnectorConfigs = [], connectorConfigs = [],
      internalState = [], debugMode = False, cancelled = [], launched = [], events = []\<rparr>"


text \<open>
  Three passes through the loop: the lease is granted and the process function returns nil;
  the scheduler answers with a cancellation; the root context is found cancelled.
\<close>

definition pass_nil :: iteration where
  "pass_nil = \<lparr>rootErr = False, awaitErr = ErrNil, processErr = ErrNil, leaseDone = False\<rparr>"

definition pass_await_cancelled :: iteration where
  "pass_await_cancelled =
     \<lparr>rootErr = False, awaitErr = ErrCanceled, processErr = ErrNil, leaseDone = False\<rparr>"

definition pass_root_cancelled :: iteration where
  "pass_root_cancelled =
     \<lparr>rootErr = True, awaitErr = ErrNil, processErr = ErrNil, leaseDone = False\<rparr>"

text \<open>A record to be written and a streamer whose calls succeed.\<close>

definition example_record :: WireRecord where
  "example_record =
     \<lparr>ID = 0, RunID = ''run-1'', WorkflowName = ''wf'', ForeignID = ''order-9'', Status = 2\<rparr>"

definition example_streamer :: streamer where
  "example_streamer = \<lparr>sendErr = None, closeErr = None\<rparr>"

definition example_Topic :: "string \<Rightarrow> int \<Rightarrow> string" where
  "example_Topic workflowName status = workflowName @ ''-'' @ (if status = 2 then ''2'' else ''?'')"

text \<open>An option that sets the parallel count, and one that sets the lag.\<close>

definition set_parallelCount :: "int \<Rightarrow> Option" where
  "set_parallelCount n = (\<lambda>opts. opts\<lparr>parallelCount := n\<rparr>)"

definition set_lag :: "int \<Rightarrow> Option" where
  "set_lag d = (\<lambda>opts. opts\<lparr>lag := d\<rparr>)"

definition example_defaults :: defaults where
  "example_defaults =
     \<lparr>defaultOutboxConfig = 0, defaultOptions = zero_options,
      defaultPausedRecordsRetry = \<lparr>enabled = True, resumeAfter = 3600\<rparr>\<rparr>"

section \<open>Properties of the builder\<close>

subsection \<open>A step stays registered\<close>

lemma AddStep_keeps_step:
  assumes "map_of (consumers w) s = Some cfg" and "AddStep frm c ds w = (None, w')"
  shows "\<exists>cfg'. map_of (consumers w') s = Some cfg' \<and> consumer cfg' = consumer cfg"
proof -
  from assms(2) have n: "map_of (consumers w) frm = None"
    and w': "consumers w' = AList.update frm \<lparr>consumer = c, c_pollingFrequency = 0,
                 c_parallelCount = 0, c_errBackOff = 0,
                 c_lag = 0, c_lagAlert = 0, c_pauseAfterErrCount = 0\<rparr> (consumers w)"
    by (auto simp: AddStep_def Let_def split: if_splits)
  from n assms(1) have "s \<noteq> frm" by auto
  with w' assms(1) show ?thesis by (simp add: update_conv')
qed

lemma step_WithOptions_keeps_step:
  assumes "map_of (consumers w) s = Some cfg" and "step_WithOptions frm opts w = (None, w')"
  shows "\<exists>cfg'. map_of (consumers w') s = Some cfg' \<and> consumer cfg' = consumer cfg"
proof -
  from assms(2) obtain cons' where
    w': "consumers w' = AList.update frm cons' (consumers w)"
    and c: "consumer cons' = consumer (lookup_consumer (consumers w) frm)"
    by (auto simp: step_WithOptions_def Let_def)
  show ?thesis
  proof (cases "s = frm")
    case True
    with w' c assms(1) show ?thesis by (simp add: update_conv' lookup_consumer_def)
  next
    case False
    with w' assms(1) show ?thesis by (simp add: update_conv')
  qed
qed

lemma AddCallback_consumers:
  assumes "AddCallback frm fn ds w = (None, w')"
  shows "consumers w' = consumers w"
  using assms by (auto simp: AddCallback_def)

lemma AddTimeout_consumers:
  assumes "AddTimeout frm timer tf ds w = (None, w')"
  shows "consumers w' = consumers w"
  using assms by (auto simp: AddTimeout_def Let_def)

lemma timeout_WithOptions_consumers:
  assumes "timeout_WithOptions frm opts w = (None, w')"
  shows "consumers w' = consumers w"
  using assms by (auto simp: timeout_WithOptions_def Let_def split: if_splits)

lemma apply_op_keeps_step:
  assumes "map_of (consumers w) s = Some cfg" and "apply_op op w = (None, w')"
  shows "\<exists>cfg'. map_of (consumers w') s = Some cfg' \<and> consumer cfg' = consumer cfg"
proof (cases op)
  case (OpAddStep frm c ds)
  with assms AddStep_keeps_step show ?thesis by simp
next
  case (OpStepWithOptions frm opts)
  with assms step_WithOptions_keeps_step show ?thesis by simp
next
  case (OpAddCallback frm fn ds)
  with assms AddCallback_consumers[of frm fn ds w w'] show ?thesis by simp
next
  case (OpAddTimeout frm timer tf ds)
  with assms AddTimeout_consumers[of frm timer tf ds w w'] show ?thesis by simp
next
  case (OpTimeoutWithOptions frm opts)
  with assms timeout_WithOptions_consumers[of frm opts w w'] show ?thesis by simp
qed

lemma apply_ops_keeps_step:
  assumes "map_of (consumers w) s = Some cfg" and "apply_ops ops w = (None, w')"
  shows "\<exists>cfg'. map_of (consumers w') s = Some cfg' \<and> consumer cfg' = consumer cfg"
  using assms
proof (induction ops arbitrary: w cfg)
  case Nil
  then show ?case by simp
next
  case (Cons op ops)
  obtain r w1 where r: "apply_op op w = (r, w1)" by (cases "apply_op op w")
  with Cons.prems(2) have rn: "r = None" and rest: "apply_ops ops w1 = (None, w')"
    by (auto split: option.splits)
  from apply_op_keeps_step[OF Cons.prems(1) r[unfolded rn]]
  obtain cfg1 where c1: "map_of (consumers w1) s = Some cfg1" "consumer cfg1 = consumer cfg"
    by blast
  from Cons.IH[OF c1(1) rest] c1(2) show ?case by auto
qed

lemma AddStep_registers:
  assumes "AddStep frm c ds w = (None, w1)"
  shows "\<exists>cfg. map_of (consumers w1) frm = Some cfg \<and> consumer cfg = c"
  using assms by (auto simp: AddStep_def Let_def update_conv' split: if_splits)

lemma AddStep_existing:
  assumes "map_of (consumers w) frm = Some cfg"
  shows "AddStep frm c ds w = (Some (AddStepExists frm), w)"
  using assms by (simp add: AddStep_def)

text \<open>
  Claim C6. Once \<open>AddStep\<close> has succeeded for a status, and whatever builder calls
  succeed after it, a further \<open>AddStep\<close> for the same status panics with the "already
  exists" message and leaves the workflow as it was; the consumer map still holds one entry
  for the status, with the step function of the first call.
\<close>

theorem AddStep_second_panics:
  assumes "AddStep frm c ds w = (None, w1)" and "apply_ops ops w1 = (None, w2)"
  shows "AddStep frm c' ds' w2 = (Some (AddStepExists frm), w2)
       \<and> (\<exists>cfg. map_of (consumers w2) frm = Some cfg \<and> consumer cfg = c)"
proof -
  from AddStep_registers[OF assms(1)] obtain cfg1 where
    c1: "map_of (consumers w1) frm = Some cfg1" "consumer cfg1 = c" by blast
  from apply_ops_keeps_step[OF c1(1) assms(2)] obtain cfg2 where
    c2: "map_of (consumers w2) frm = Some cfg2" "consumer cfg2 = consumer cfg1" by blast
  from AddStep_existing[OF c2(1)] c2 c1(2) show ?thesis by auto
qed

theorem AddStep_second_panics_witness:
  "fst (AddStep 1 7 [2] (NewBuilder ''wf'' 0 0)) = None
   \<and> fst (apply_ops [OpAddStep 2 8 [3], OpStepWithOptions 1 [set_parallelCount 4],
                      OpAddTimeout 1 5 6 [3]]
            (snd (AddStep 1 7 [2] (NewBuilder ''wf'' 0 0)))) = None
   \<and> fst (AddStep 1 9 [3]
            (snd (apply_ops [OpAddStep 2 8 [3], OpStepWithOptions 1 [set_parallelCount 4],
                             OpAddTimeout 1 5 6 [3]]
                   (snd (AddStep 1 7 [2] (NewBuilder ''wf'' 0 0)))))) = Some (AddStepExists 1)"
proof -
  let ?w = "NewBuilder ''wf'' 0 0"
  let ?ops = "[OpAddStep 2 8 [3], OpStepWithOptions 1 [set_parallelCount 4], OpAddTimeout 1 5 6 [3]]"
  have h1: "fst (AddStep 1 7 [2] ?w) = None"
    by (simp add: AddStep_def NewBuilder_def Let_def)
  have h2: "fst (apply_ops ?ops (snd (AddStep 1 7 [2] ?w))) = None"
    by (simp add: AddStep_def NewBuilder_def Let_def step_WithOptions_def AddTimeout_def)
  have e1: "AddStep 1 7 [2] ?w = (None, snd (AddStep 1 7 [2] ?w))"
    using h1 by (metis prod.collapse)
  have e2: "apply_ops ?ops (snd (AddStep 1 7 [2] ?w)) = (None, snd (apply_ops ?ops (snd (AddStep 1 7 [2] ?w))))"
    using h2 by (metis prod.collapse)
  from AddStep_second_panics[OF e1 e2, of 9 "[3]"] h1 h2 show ?thesis by simp
qed

text \<open>
  Starting from \<open>NewBuilder\<close>, the consumer map never holds two entries for one status.
\<close>

lemma apply_op_distinct:
  assumes "distinct (map fst (consumers w))"
  shows "distinct (map fst (consumers (snd (apply_op op w))))"
proof (cases op)
  case (OpAddStep frm c ds)
  with assms show ?thesis by (simp add: AddStep_def Let_def distinct_update)
next
  case (OpStepWithOptions frm opts)
  with assms show ?thesis by (simp add: step_WithOptions_def Let_def distinct_update)
next
  case (OpAddCallback frm fn ds)
  with assms show ?thesis by (simp add: AddCallback_def)
next
  case (OpAddTimeout frm timer tf ds)
  with assms show ?thesis by (simp add: AddTimeout_def Let_def)
next
  case (OpTimeoutWithOptions frm opts)
  with assms show ?thesis by (simp add: timeout_WithOptions_def Let_def)
qed

lemma apply_ops_distinct:
  assumes "distinct (map fst (consumers w))"
  shows "distinct (map fst (consumers (snd (apply_ops ops w))))"
  using assms
proof (induction ops arbitrary: w)
  case Nil
  then show ?case by simp
next
  case (Cons op ops)
  obtain r w1 where r: "apply_op op w = (r, w1)" by (cases "apply_op op w")
  from apply_op_distinct[OF Cons.prems, of op] r have d: "distinct (map fst (consumers w1))"
    by simp
  show ?case
  proof (cases r)
    case None
    with r Cons.IH[OF d] show ?thesis by simp
  next
    case (Some p)
    with r d show ?thesis by simp
  qed
qed

lemma NewBuilder_one_step_per_status:
  "distinct (map fst (consumers (snd (apply_ops ops (NewBuilder nm rc lg)))))"
  by (rule apply_ops_distinct) (simp add: NewBuilder_def)

subsection \<open>Timeout options\<close>

text \<open>
  Claim C7. When the options handed to the timeout updater leave a parallel count or a lag
  other than zero, \<open>WithOptions\<close> panics ("Cannot configure parallel timeout" when the
  parallel count is set, otherwise "Cannot configure lag for timeout") and the workflow,
  its timeout configuration included, is unchanged.
\<close>

theorem timeout_WithOptions_rejects:
  assumes "parallelCount (apply_opts opts zero_options) \<noteq> 0
         \<or> lag (apply_opts opts zero_options) \<noteq> 0"
  shows "timeout_WithOptions frm opts w =
     (Some (if parallelCount (apply_opts opts zero_options) \<noteq> 0
            then ParallelTimeout else LagTimeout), w)"
  using assms by (auto simp: timeout_WithOptions_def Let_def)

theorem timeout_WithOptions_rejects_witness:
  "lag (apply_opts [set_lag 5] zero_options) \<noteq> 0
   \<and> timeout_WithOptions 1 [set_lag 5] (snd (AddTimeout 1 5 6 [2] (NewBuilder ''wf'' 0 0)))
       = (Some LagTimeout, snd (AddTimeout 1 5 6 [2] (NewBuilder ''wf'' 0 0)))
   \<and> parallelCount (apply_opts [set_parallelCount 3] zero_options) \<noteq> 0
   \<and> timeout_WithOptions 1 [set_parallelCount 3] (snd (AddTimeout 1 5 6 [2] (NewBuilder ''wf'' 0 0)))
       = (Some ParallelTimeout, snd (AddTimeout 1 5 6 [2] (NewBuilder ''wf'' 0 0)))"
proof -
  have h1: "lag (apply_opts [set_lag 5] zero_options) \<noteq> 0"
    by (simp add: set_lag_def zero_options_def)
  have p1: "parallelCount (apply_opts [set_lag 5] zero_options) = 0"
    by (simp add: set_lag_def zero_options_def)
  have h2: "parallelCount (apply_opts [set_parallelCount 3] zero_options) \<noteq> 0"
    by (simp add: set_parallelCount_def zero_options_def)
  from h1 have d1: "parallelCount (apply_opts [set_lag 5] zero_options) \<noteq> 0
         \<or> lag (apply_opts [set_lag 5] zero_options) \<noteq> 0" by simp
  from h2 have d2: "parallelCount (apply_opts [set_parallelCount 3] zero_options) \<noteq> 0
         \<or> lag (apply_opts [set_parallelCount 3] zero_options) \<noteq> 0" by simp
  from timeout_WithOptions_rejects[OF d1] timeout_WithOptions_rejects[OF d2] h1 h2 p1
  show ?thesis by simp
qed

subsection \<open>Build and the timeout store\<close>

lemma Build_fst:
  "fst (Build d es rs sch opts w) =
     (if timeouts w \<noteq> [] \<and> bo_timeoutStore (apply_build_opts opts (defaultBuildOptions d)) = None
      then Some TimeoutStoreMissing else None)"
  by (simp add: Build_def Let_def)

lemma Build_snd:
  "timeoutStore (snd (Build d es rs sch opts w))
     = bo_timeoutStore (apply_build_opts opts (defaultBuildOptions d))
   \<and> timeouts (snd (Build d es rs sch opts w)) = timeouts w
   \<and> consumers (snd (Build d es rs sch opts w)) = consumers w"
  by (simp add: Build_def Let_def)

lemma WithTimeoutStore_last:
  "bo_timeoutStore (apply_build_opts (opts @ [WithTimeoutStore s]) bo) = s"
  by (induction opts arbitrary: bo) (simp_all add: WithTimeoutStore_def)

text \<open>
  Claim C8. \<open>Build\<close> panics when the timeout map is not empty and the build options leave
  the timeout store nil. When the timeout map is empty, or the options supply a store,
  \<open>Build\<close> does not panic and returns the workflow, which holds that store and the
  timeouts and steps configured before.
\<close>

theorem Build_timeout_store:
  "(timeouts w \<noteq> [] \<and> bo_timeoutStore (apply_build_opts opts (defaultBuildOptions d)) = None
      \<longrightarrow> fst (Build d es rs sch opts w) = Some TimeoutStoreMissing)
   \<and> (timeouts w = [] \<or> bo_timeoutStore (apply_build_opts opts (defaultBuildOptions d)) \<noteq> None
      \<longrightarrow> fst (Build d es rs sch opts w) = None
          \<and> timeoutStore (snd (Build d es rs sch opts w))
              = bo_timeoutStore (apply_build_opts opts (defaultBuildOptions d))
          \<and> timeouts (snd (Build d es rs sch opts w)) = timeouts w
          \<and> consumers (snd (Build d es rs sch opts w)) = consumers w)"
  using Build_fst[of d es rs sch opts w] Build_snd[of d es rs sch opts w] by auto

theorem Build_timeout_store_witness:
  "timeouts (snd (AddTimeout 1 5 6 [2] (NewBuilder ''wf'' 0 0))) \<noteq> []
   \<and> bo_timeoutStore (apply_build_opts [WithDebugMode] (defaultBuildOptions example_defaults)) = None
   \<and> fst (Build example_defaults (Some 1) (Some 2) (Some 3) [WithDebugMode]
            (snd (AddTimeout 1 5 6 [2] (NewBuilder ''wf'' 0 0)))) = Some TimeoutStoreMissing
   \<and> bo_timeoutStore (apply_build_opts [WithTimeoutStore (Some 4)]
        (defaultBuildOptions example_defaults)) \<noteq> None
   \<and> fst (Build example_defaults (Some 1) (Some 2) (Some 3) [WithTimeoutStore (Some 4)]
            (snd (AddTimeout 1 5 6 [2] (NewBuilder ''wf'' 0 0)))) = None
   \<and> timeouts (NewBuilder ''wf'' 0 0) = []
   \<and> fst (Build example_defaults (Some 1) (Some 2) (Some 3) [] (NewBuilder ''wf'' 0 0)) = None"
proof -
  let ?wt = "snd (AddTimeout 1 5 6 [2] (NewBuilder ''wf'' 0 0))"
  have t: "timeouts ?wt \<noteq> []"
    by (simp add: AddTimeout_def Let_def NewBuilder_def)
  have n: "bo_timeoutStore (apply_build_opts [WithDebugMode] (defaultBuildOptions example_defaults)) = None"
    by (simp add: WithDebugMode_def defaultBuildOptions_def)
  have s: "bo_timeoutStore (apply_build_opts [WithTimeoutStore (Some 4)]
        (defaultBuildOptions example_defaults)) \<noteq> None"
    by (simp add: WithTimeoutStore_def)
  have e: "timeouts (NewBuilder ''wf'' 0 0) = []"
    by (simp add: NewBuilder_def)
  from Build_timeout_store[of ?wt "[WithDebugMode]" example_defaults "Some 1" "Some 2" "Some 3"]
    Build_timeout_store[of ?wt "[WithTimeoutStore (Some 4)]" example_defaults "Some 1" "Some 2" "Some 3"]
    Build_timeout_store[of "NewBuilder ''wf'' 0 0" "[]" example_defaults "Some 1" "Some 2" "Some 3"]
    t n s e
  show ?thesis by blast
qed


section \<open>Properties of Run\<close>

subsection \<open>The shard loop\<close>

lemma incr_in_range: "MinInt \<le> i \<Longrightarrow> i < MaxInt \<Longrightarrow> incr i = i + 1"
  by (simp add: incr_def MinInt_def MaxInt_def)

lemma incr_MaxInt: "incr MaxInt = MinInt"
  by (simp add: incr_def MinInt_def MaxInt_def)


text \<open>Below the largest \<open>int\<close> the loop ends and has started one goroutine per index.\<close>

lemma shard_loop_bounded:
  assumes "n < MaxInt" and "1 \<le> i"
  shows "shard_loop g i n started = Some (started @ map (\<lambda>j. g j n) [i..n])"
  using assms(2)
proof (induction "nat (n + 1 - i)" arbitrary: i started)
  case 0
  then have "\<not> i \<le> n" by simp
  then show ?case by (subst shard_loop.simps) simp
next
  case (Suc k)
  then have le: "i \<le> n" by simp
  with assms(1) Suc.prems have inc: "incr i = i + 1"
    by (intro incr_in_range) (simp_all add: MinInt_def)
  have k: "k = nat (n + 1 - (i + 1))" using Suc.hyps(2) by simp
  have "shard_loop g (i + 1) n (started @ [g i n])
          = Some ((started @ [g i n]) @ map (\<lambda>j. g j n) [i + 1..n])"
    using Suc.hyps(1)[OF k] Suc.prems by simp
  with le inc show ?case
    by (subst shard_loop.simps) (simp add: upto_rec1[of i n])
qed

text \<open>
  At the largest \<open>int\<close> the test never fails: after \<open>g MaxInt MaxInt\<close> the counter wraps
  and the loop goes on with the index \<open>MinInt\<close>, and it never ends.
\<close>

lemma shard_loop_wraps:
  "shard_loop g MaxInt MaxInt started
     = shard_loop g MinInt MaxInt (started @ [g MaxInt MaxInt])"
  by (subst shard_loop.simps) (simp add: incr_MaxInt)



lemma launch_bounded:
  "n < MaxInt \<Longrightarrow> launch g n = Some (if 2 \<le> n then map (\<lambda>i. g i n) [1..n] else [g 1 1])"
  by (auto simp: launch_def shard_loop_bounded)

lemma launch_all_Some:
  "(\<And>x. x \<in> set xs \<Longrightarrow> f x = Some (h x)) \<Longrightarrow> launch_all f xs = Some (concat (map h xs))"
  by (induction xs) simp_all

lemma length_shards: "length (map (\<lambda>i. g i n) [1..n]) = nat n"
  by simp

subsection \<open>The first call\<close>

lemma launch_consumers_bounded:
  assumes "\<And>p. p \<in> set ps \<Longrightarrow> ParallelCount p < MaxInt"
  shows "launch_consumers (s, ps) =
     Some (concat (map (\<lambda>p. if 2 \<le> ParallelCount p then map (\<lambda>i. go_consumer s p i (ParallelCount p)) [1..ParallelCount p]
                           else [go_consumer s p 1 1]) ps))"
  unfolding launch_consumers_def prod.case
  by (rule launch_all_Some) (simp add: launch_bounded assms)

text \<open>
  When no parallel count is the largest \<open>int\<close>, the first call of \<open>Run\<close> returns; it has
  set the context, the cancel function and both flags, and has started the goroutines of
  the four loops in order.
\<close>

lemma Run_first:
  assumes "\<not> once w"
    and "\<forall>(s, ps) \<in> set (w_consumers w). \<forall>p \<in> set ps. ParallelCount p < MaxInt"
    and "\<forall>config \<in> set (workflowConnectorConfigs w). cfg_parallelCount config < MaxInt"
    and "\<forall>config \<in> set (connectorConfigs w). cfg_parallelCount config < MaxInt"
  shows "Run c w = Some (w\<lparr>ctx := Some (WithCancel c), cancel := Some (WithCancel c),
      calledRun := True,
      launched := launched w
        @ concat (map (\<lambda>(s, ps). concat (map (\<lambda>p.
              if 2 \<le> ParallelCount p then map (\<lambda>i. go_consumer s p i (ParallelCount p)) [1..ParallelCount p]
              else [go_consumer s p 1 1]) ps))
            (w_consumers w))
        @ concat (map (\<lambda>(status, ts). [go_timeoutPoller status ts,
              go_timeoutAutoInserterConsumer status ts]) (w_timeouts w))
        @ concat (map (\<lambda>config.
              if 2 \<le> cfg_parallelCount config then map (\<lambda>i. go_workflowConnectorConsumer config i (cfg_parallelCount config))
                     [1..cfg_parallelCount config]
              else [go_workflowConnectorConsumer config 1 1]) (workflowConnectorConfigs w))
        @ concat (map (\<lambda>config.
              if 2 \<le> cfg_parallelCount config then map (\<lambda>i. go_connectorConsumer config i (cfg_parallelCount config))
                     [1..cfg_parallelCount config]
              else [go_connectorConsumer config 1 1]) (connectorConfigs w)),
      once := True\<rparr>)"
proof -
  have cs: "launch_all launch_consumers (w_consumers w) =
      Some (concat (map (\<lambda>(s, ps). concat (map (\<lambda>p.
              if 2 \<le> ParallelCount p then map (\<lambda>i. go_consumer s p i (ParallelCount p)) [1..ParallelCount p]
              else [go_consumer s p 1 1]) ps))
            (w_consumers w)))"
  proof (rule launch_all_Some)
    fix x assume x: "x \<in> set (w_consumers w)"
    obtain s ps where sp: "x = (s, ps)" by (cases x)
    with x assms(2) have "\<And>p. p \<in> set ps \<Longrightarrow> ParallelCount p < MaxInt" by blast
    from launch_consumers_bounded[OF this] sp
    show "launch_consumers x = Some ((\<lambda>(s, ps). concat (map (\<lambda>p.
              if 2 \<le> ParallelCount p then map (\<lambda>i. go_consumer s p i (ParallelCount p)) [1..ParallelCount p]
              else [go_consumer s p 1 1]) ps)) x)"
      by simp
  qed
  have ts: "launch_all launch_timeouts (w_timeouts w) =
      Some (concat (map (\<lambda>(status, ts). [go_timeoutPoller status ts,
              go_timeoutAutoInserterConsumer status ts]) (w_timeouts w)))"
    by (rule launch_all_Some) (simp add: launch_timeouts_def split: prod.splits)
  have wcs: "launch_all (\<lambda>config. launch (go_workflowConnectorConsumer config) (cfg_parallelCount config))
        (workflowConnectorConfigs w) =
      Some (concat (map (\<lambda>config.
              if 2 \<le> cfg_parallelCount config then map (\<lambda>i. go_workflowConnectorConsumer config i (cfg_parallelCount config))
                     [1..cfg_parallelCount config]
              else [go_workflowConnectorConsumer config 1 1]) (workflowConnectorConfigs w)))"
    by (rule launch_all_Some) (simp add: launch_bounded assms(3))
  have ccs: "launch_all (\<lambda>config. launch (go_connectorConsumer config) (cfg_parallelCount config))
        (connectorConfigs w) =
      Some (concat (map (\<lambda>config.
              if 2 \<le> cfg_parallelCount config then map (\<lambda>i. go_connectorConsumer config i (cfg_parallelCount config))
                     [1..cfg_parallelCount config]
              else [go_connectorConsumer config 1 1]) (connectorConfigs w)))"
    by (rule launch_all_Some) (simp add: launch_bounded assms(4))
  show ?thesis
    using assms(1) by (simp add: Run_def Run_body_def Let_def cs ts wcs ccs)
qed


lemma example_workflow_bounded:
  "\<forall>(s, ps) \<in> set (w_consumers example_workflow). \<forall>p \<in> set ps. ParallelCount p < MaxInt"
  "\<forall>config \<in> set (workflowConnectorConfigs example_workflow). cfg_parallelCount config < MaxInt"
  "\<forall>config \<in> set (connectorConfigs example_workflow). cfg_parallelCount config < MaxInt"
  by (simp_all add: example_workflow_def MaxInt_def)




subsection \<open>Later calls\<close>

lemma Run_once: "Run c w = Some w' \<Longrightarrow> once w'"
  by (auto simp: Run_def split: if_splits option.splits)

lemma Run_again: "once w \<Longrightarrow> Run c w = Some w"
  by (simp add: Run_def)

lemma Runs_again: "once w \<Longrightarrow> Runs cs w = Some w"
  by (induction cs) (simp_all add: Run_again)

text \<open>
  Claim C9. A first call of \<open>Run\<close> followed by any number of further calls, with any
  contexts, has the outcome of the first call alone: once the first call has returned, the
  further calls leave the workflow exactly as the first call left it, with the same
  context, cancel function and \<open>calledRun\<close> flag, and no goroutine started beyond those
  of the first call.
\<close>

theorem Run_idempotent:
  "Runs (c # cs) w = Run c w
   \<and> (\<forall>w'. Run c w = Some w' \<longrightarrow> Runs cs w' = Some w')
   \<and> map_option launched (Runs (c # cs) w) = map_option launched (Run c w)
   \<and> map_option ctx (Runs (c # cs) w) = map_option ctx (Run c w)
   \<and> map_option cancel (Runs (c # cs) w) = map_option cancel (Run c w)
   \<and> map_option calledRun (Runs (c # cs) w) = map_option calledRun (Run c w)"
proof -
  have later: "\<forall>w'. Run c w = Some w' \<longrightarrow> Runs cs w' = Some w'"
    using Run_once Runs_again by blast
  have "Runs (c # cs) w = Run c w"
  proof (cases "Run c w")
    case None
    then show ?thesis by simp
  next
    case (Some w')
    with later show ?thesis by simp
  qed
  with later show ?thesis by simp
qed

theorem Run_idempotent_witness:
  "Runs [Outer 0, Outer 1, Outer 2] example_workflow = Run (Outer 0) example_workflow
   \<and> map_option ctx (Runs [Outer 0, Outer 1, Outer 2] example_workflow)
       = Some (Some (WithCancel (Outer 0)))
   \<and> map_option (\<lambda>w. length (launched w)) (Runs [Outer 0, Outer 1, Outer 2] example_workflow)
       = Some 6"
proof -
  have n: "\<not> once example_workflow" by (simp add: example_workflow_def)
  note r = Run_first[OF n example_workflow_bounded, of "Outer 0"]
  have e: "Runs [Outer 0, Outer 1, Outer 2] example_workflow = Run (Outer 0) example_workflow"
    using Run_idempotent[of "Outer 0" "[Outer 1, Outer 2]" example_workflow] by blast
  have c: "map_option ctx (Run (Outer 0) example_workflow) = Some (Some (WithCancel (Outer 0)))"
    unfolding r by simp
  have l: "map_option (\<lambda>w. length (launched w)) (Run (Outer 0) example_workflow) = Some 6"
    unfolding r by (simp add: example_workflow_def)
  from e c l show ?thesis by simp
qed

section \<open>Properties of Stop\<close>

text \<open>
  Claim C10. When the cancel function is nil, as it is until \<open>Run\<close> has been called,
  \<open>Stop\<close> returns at once: it reads the state map not a single time, whatever the
  goroutines might report, cancels nothing and leaves the workflow unchanged.
\<close>

theorem Stop_before_Run:
  assumes "cancel w = None"
  shows "Stop obs w = (Returned 0, w)"
  using assms by (simp add: Stop_def)

theorem Stop_before_Run_witness:
  "cancel example_workflow = None
   \<and> Stop [[(''p'', StateRunning)]] example_workflow = (Returned 0, example_workflow)"
proof -
  have h: "cancel example_workflow = None" by (simp add: example_workflow_def)
  from Stop_before_Run[OF h] h show ?thesis by simp
qed

lemma set_update_cases:
  "(p, s) \<in> set (AList.update k v m) \<Longrightarrow> (p, s) = (k, v) \<or> (p, s) \<in> set m"
  by (induction m) (auto split: if_splits)

lemma reachable_no_unknown:
  "reachable_states m \<Longrightarrow> (p, s) \<in> set m \<Longrightarrow> s \<noteq> StateUnknown"
proof (induction arbitrary: p s rule: reachable_states.induct)
  case initial
  then show ?case by simp
next
  case (idle m q)
  from set_update_cases[OF idle.prems[unfolded updateState_def]] idle.IH show ?case by auto
next
  case (running m q)
  from set_update_cases[OF running.prems[unfolded updateState_def]] running.IH show ?case by auto
next
  case (shutdown m q)
  from set_update_cases[OF shutdown.prems[unfolded updateState_def]] shutdown.IH show ?case by auto
qed

lemma runningProcesses_zero:
  "runningProcesses m = 0 \<longleftrightarrow> (\<forall>(p, s) \<in> set m. s = StateUnknown \<or> s = StateShutdown)"
proof -
  have c: "\<And>s. counts_as_running s \<longleftrightarrow> \<not> (s = StateUnknown \<or> s = StateShutdown)"
    by (case_tac s) simp_all
  show ?thesis
    by (auto simp: runningProcesses_def filter_empty_conv c)
qed

text \<open>
  The wait loop returns at the first observation in which nothing counts as running, and
  not before.
\<close>

lemma Stop_wait_Returned:
  "Stop_wait obs n = Returned k \<Longrightarrow>
     n < k \<and> k \<le> n + length obs \<and> runningProcesses (obs ! (k - n - 1)) = 0
     \<and> (\<forall>j < k - n - 1. runningProcesses (obs ! j) \<noteq> 0)"
proof (induction obs arbitrary: n)
  case Nil
  then show ?case by simp
next
  case (Cons m obs)
  show ?case
  proof (cases "runningProcesses m = 0")
    case True
    with Cons.prems show ?thesis by simp
  next
    case False
    with Cons.prems have r: "Stop_wait obs (Suc n) = Returned k" by simp
    from Cons.IH[OF r] have ih: "Suc n < k" "k \<le> Suc n + length obs"
      "runningProcesses (obs ! (k - Suc n - 1)) = 0"
      "\<forall>j < k - Suc n - 1. runningProcesses (obs ! j) \<noteq> 0" by auto
    have idx: "k - n - 1 = Suc (k - Suc n - 1)" using ih(1) by arith
    have "\<forall>j < k - n - 1. runningProcesses ((m # obs) ! j) \<noteq> 0"
    proof (intro allI impI)
      fix j assume j: "j < k - n - 1"
      show "runningProcesses ((m # obs) ! j) \<noteq> 0"
      proof (cases j)
        case 0
        with False show ?thesis by simp
      next
        case (Suc i)
        with j idx have "i < k - Suc n - 1" by arith
        with ih(4) Suc show ?thesis by simp
      qed
    qed
    with ih idx show ?thesis by simp
  qed
qed

lemma Stop_wait_Blocked:
  "Stop_wait obs n = Blocked \<longleftrightarrow> (\<forall>m \<in> set obs. runningProcesses m \<noteq> 0)"
  by (induction obs arbitrary: n) auto

text \<open>
  Whatever the state maps hold, the map on which \<open>Stop\<close> returns has only Unknown and
  Shutdown entries: the \<open>switch\<close> skips both.
\<close>

lemma Stop_returns_general:
  assumes "fst (Stop obs w) = Returned k" and "0 < k"
  shows "\<forall>(p, s) \<in> set (obs ! (k - 1)). s = StateUnknown \<or> s = StateShutdown"
proof -
  from assms obtain c where c: "cancel w = Some c"
    by (cases "cancel w") (auto simp: Stop_def)
  with assms(1) have "Stop_wait obs 0 = Returned k" by (simp add: Stop_def)
  from Stop_wait_Returned[OF this] have "runningProcesses (obs ! (k - 1)) = 0" by simp
  then show ?thesis by (simp add: runningProcesses_zero)
qed

text \<open>
  Claim C1. With a cancel function in place (\<open>Run\<close> has been called) and state maps that
  the processor loops can produce, \<open>Stop\<close> cancels the root context, and if it returns
  after \<open>k\<close> reads of the state map then in the map of the last read every process is in
  state Shutdown, while each earlier read showed a process in another state. \<open>Stop\<close> is
  still blocked exactly when every map read so far shows a process that is not Shutdown.
\<close>

theorem Stop_waits_for_shutdown:
  assumes "cancel w = Some c" and "\<forall>m \<in> set obs. reachable_states m"
  shows "c \<in> set (cancelled (snd (Stop obs w)))
     \<and> (\<forall>k. fst (Stop obs w) = Returned k \<longrightarrow>
           0 < k \<and> k \<le> length obs
           \<and> (\<forall>(p, s) \<in> set (obs ! (k - 1)). s = StateShutdown)
           \<and> (\<forall>j < k - 1. \<exists>(p, s) \<in> set (obs ! j). s \<noteq> StateShutdown))
     \<and> (fst (Stop obs w) = Blocked \<longleftrightarrow>
           (\<forall>m \<in> set obs. \<exists>(p, s) \<in> set m. s \<noteq> StateShutdown))"
proof -
  have st: "Stop obs w = (Stop_wait obs 0, w\<lparr>cancelled := c # cancelled w\<rparr>)"
    using assms(1) by (simp add: Stop_def)
  have reach: "\<And>m. m \<in> set obs \<Longrightarrow>
      runningProcesses m = 0 \<longleftrightarrow> (\<forall>(p, s) \<in> set m. s = StateShutdown)"
  proof -
    fix m assume "m \<in> set obs"
    with assms(2) have "reachable_states m" by blast
    then have "\<And>p s. (p, s) \<in> set m \<Longrightarrow> s \<noteq> StateUnknown"
      using reachable_no_unknown by blast
    then show "runningProcesses m = 0 \<longleftrightarrow> (\<forall>(p, s) \<in> set m. s = StateShutdown)"
      unfolding runningProcesses_zero by blast
  qed
  have a: "c \<in> set (cancelled (snd (Stop obs w)))" by (simp add: st)
  have b: "\<forall>k. fst (Stop obs w) = Returned k \<longrightarrow>
           0 < k \<and> k \<le> length obs
           \<and> (\<forall>(p, s) \<in> set (obs ! (k - 1)). s = StateShutdown)
           \<and> (\<forall>j < k - 1. \<exists>(p, s) \<in> set (obs ! j). s \<noteq> StateShutdown)"
  proof (intro allI impI)
    fix k assume "fst (Stop obs w) = Returned k"
    then have "Stop_wait obs 0 = Returned k" by (simp add: st)
    from Stop_wait_Returned[OF this] have r: "0 < k" "k \<le> length obs"
      "runningProcesses (obs ! (k - 1)) = 0"
      "\<forall>j < k - 1. runningProcesses (obs ! j) \<noteq> 0" by auto
    have in1: "obs ! (k - 1) \<in> set obs" using r(1,2) by simp
    have inj: "\<And>j. j < k - 1 \<Longrightarrow> obs ! j \<in> set obs" using r(1,2) by simp
    have c1: "\<forall>(p, s) \<in> set (obs ! (k - 1)). s = StateShutdown"
      using reach[OF in1] r(3) by blast
    have c2: "\<forall>j < k - 1. \<exists>(p, s) \<in> set (obs ! j). s \<noteq> StateShutdown"
    proof (intro allI impI)
      fix j assume j: "j < k - 1"
      with r(4) have "runningProcesses (obs ! j) \<noteq> 0" by blast
      with reach[OF inj[OF j]] show "\<exists>(p, s) \<in> set (obs ! j). s \<noteq> StateShutdown" by blast
    qed
    from r(1,2) c1 c2 show "0 < k \<and> k \<le> length obs
           \<and> (\<forall>(p, s) \<in> set (obs ! (k - 1)). s = StateShutdown)
           \<and> (\<forall>j < k - 1. \<exists>(p, s) \<in> set (obs ! j). s \<noteq> StateShutdown)" by blast
  qed
  have c': "fst (Stop obs w) = Blocked \<longleftrightarrow>
           (\<forall>m \<in> set obs. \<exists>(p, s) \<in> set m. s \<noteq> StateShutdown)"
  proof -
    have "fst (Stop obs w) = Blocked \<longleftrightarrow> (\<forall>m \<in> set obs. runningProcesses m \<noteq> 0)"
      by (simp add: st Stop_wait_Blocked)
    also have "\<dots> \<longleftrightarrow> (\<forall>m \<in> set obs. \<exists>(p, s) \<in> set m. s \<noteq> StateShutdown)"
      using reach by blast
    finally show ?thesis .
  qed
  from a b c' show ?thesis by blast
qed

theorem Stop_waits_for_shutdown_witness:
  "map_option cancel (Run (Outer 0) example_workflow) = Some (Some (WithCancel (Outer 0)))
   \<and> reachable_states [(''p'', StateRunning)]
   \<and> reachable_states [(''p'', StateShutdown)]
   \<and> fst (Stop [[(''p'', StateRunning)], [(''p'', StateShutdown)]]
            (the (Run (Outer 0) example_workflow))) = Returned 2
   \<and> WithCancel (Outer 0) \<in> set (cancelled (snd (Stop [[(''p'', StateRunning)], [(''p'', StateShutdown)]]
            (the (Run (Outer 0) example_workflow)))))
   \<and> fst (Stop [[(''p'', StateRunning)], [(''p'', StateShutdown)]]
            (the (Run (Outer 0) example_workflow))) \<noteq> Blocked"
proof -
  let ?obs = "[[(''p'', StateRunning)], [(''p'', StateShutdown)]]"
  let ?w = "the (Run (Outer 0) example_workflow)"
  have n: "\<not> once example_workflow" by (simp add: example_workflow_def)
  note r = Run_first[OF n example_workflow_bounded, of "Outer 0"]
  have h0: "map_option cancel (Run (Outer 0) example_workflow) = Some (Some (WithCancel (Outer 0)))"
    unfolding r by simp
  have h1: "cancel ?w = Some (WithCancel (Outer 0))"
    unfolding r by simp
  have r1: "reachable_states [(''p'', StateRunning)]"
    using reachable_states.running[OF reachable_states.initial, of "''p''"]
    by (simp add: updateState_def)
  have r2: "reachable_states [(''p'', StateShutdown)]"
    using reachable_states.shutdown[OF reachable_states.initial, of "''p''"]
    by (simp add: updateState_def)
  have h2: "\<forall>m \<in> set ?obs. reachable_states m" using r1 r2 by simp
  have k: "fst (Stop ?obs ?w) = Returned 2"
    by (simp add: Stop_def h1 runningProcesses_def)
  from Stop_waits_for_shutdown[OF h1 h2] have
    a: "WithCancel (Outer 0) \<in> set (cancelled (snd (Stop ?obs ?w)))"
    and c: "fst (Stop ?obs ?w) = Blocked \<longleftrightarrow>
           (\<forall>m \<in> set ?obs. \<exists>(p, s) \<in> set m. s \<noteq> StateShutdown)"
    by blast+
  from c have nb: "fst (Stop ?obs ?w) \<noteq> Blocked" by simp
  from h0 r1 r2 k a nb show ?thesis by blast
qed

section \<open>Properties of the role-leased loop\<close>

lemma events_emit: "events (emit e w) = events w @ [e]"
  by (simp add: emit_def)

lemma events_report: "events (report pn s w) = events w @ [EvUpdateState pn s]"
  by (simp add: report_def emit_def)

lemma internalState_emit: "internalState (emit e w) = internalState w"
  by (simp add: emit_def)

lemma internalState_report:
  "internalState (report pn s w) = updateState pn s (internalState w)"
  by (simp add: report_def emit_def)

lemma Name_emit: "Name (emit e w) = Name w"
  by (simp add: emit_def)

lemma Name_report: "Name (report pn s w) = Name w"
  by (simp add: report_def emit_def)

text \<open>
  A pass adds events to the trace and reports neither Idle nor Shutdown.
\<close>

lemma run_iter_events:
  "\<exists>tr. events (snd (run_iter role pn bo it w)) = events w @ tr
        \<and> EvUpdateState pn StateIdle \<notin> set tr \<and> EvUpdateState pn StateShutdown \<notin> set tr"
proof (cases "rootErr it")
  case True
  then show ?thesis by (simp add: run_iter_def events_emit)
next
  case False
  note root = this
  show ?thesis
  proof (cases "awaitErr it")
    case ErrCanceled
    with root show ?thesis by (simp add: run_iter_def Let_def events_emit)
  next
    case ErrOther
    with root show ?thesis by (simp add: run_iter_def Let_def events_emit)
  next
    case ErrNil
    note await = this
    show ?thesis
    proof (cases "processErr it")
      case ErrNil
      with root await show ?thesis
        by (simp add: run_iter_def Let_def events_emit events_report)
    next
      case ErrCanceled
      with root await show ?thesis
        by (simp add: run_iter_def Let_def events_emit events_report)
    next
      case ErrOther
      with root await show ?thesis
        by (cases "leaseDone it") (simp_all add: run_iter_def Let_def events_emit events_report)
    qed
  qed
qed

lemma run_loop_events:
  "\<exists>tr. events (snd (run_loop role pn bo its w)) = events w @ tr
        \<and> EvUpdateState pn StateIdle \<notin> set tr \<and> EvUpdateState pn StateShutdown \<notin> set tr"
proof (induction its arbitrary: w)
  case Nil
  show ?case by simp
next
  case (Cons it its)
  obtain b w1 where r: "run_iter role pn bo it w = (b, w1)" by (cases "run_iter role pn bo it w")
  from run_iter_events[of role pn bo it w] r obtain tr1 where
    t1: "events w1 = events w @ tr1" "EvUpdateState pn StateIdle \<notin> set tr1"
        "EvUpdateState pn StateShutdown \<notin> set tr1" by auto
  show ?case
  proof (cases b)
    case True
    with r t1 show ?thesis by simp
  next
    case False
    from Cons.IH[of w1] obtain tr2 where
      t2: "events (snd (run_loop role pn bo its w1)) = events w1 @ tr2"
          "EvUpdateState pn StateIdle \<notin> set tr2" "EvUpdateState pn StateShutdown \<notin> set tr2"
      by blast
    from False r t1 t2 have
      "events (snd (run_loop role pn bo (it # its) w)) = events w @ (tr1 @ tr2)
        \<and> EvUpdateState pn StateIdle \<notin> set (tr1 @ tr2)
        \<and> EvUpdateState pn StateShutdown \<notin> set (tr1 @ tr2)" by simp
    then show ?thesis by blast
  qed
qed

text \<open>A pass that finds the root context cancelled returns without asking for a lease.\<close>

lemma run_iter_root_cancelled:
  "rootErr it \<Longrightarrow> run_iter role pn bo it w =
     (True, if debugMode w then emit (EvLogInfo role pn) w else w)"
  by (simp add: run_iter_def)

lemma run_loop_exits:
  "\<exists>it \<in> set its. rootErr it \<Longrightarrow> fst (run_loop role pn bo its w)"
proof (induction its arbitrary: w)
  case Nil
  then show ?case by simp
next
  case (Cons it its)
  obtain b w1 where r: "run_iter role pn bo it w = (b, w1)" by (cases "run_iter role pn bo it w")
  show ?case
  proof (cases b)
    case True
    with r show ?thesis by simp
  next
    case False
    with r run_iter_root_cancelled[of it role pn bo w] have "\<not> rootErr it" by auto
    with Cons.prems have "\<exists>it \<in> set its. rootErr it" by simp
    from Cons.IH[OF this, of w1] False r show ?thesis by simp
  qed
qed

text \<open>A pass with the root context live begins by asking for the lease.\<close>

lemma run_iter_awaits_first:
  "\<not> rootErr it \<Longrightarrow> \<exists>tr. events (snd (run_iter role pn bo it w)) = events w @ EvAwait role # tr"
proof (cases "awaitErr it")
  case ErrCanceled
  assume "\<not> rootErr it"
  with ErrCanceled show ?thesis by (simp add: run_iter_def Let_def events_emit)
next
  case ErrOther
  assume "\<not> rootErr it"
  with ErrOther show ?thesis by (simp add: run_iter_def Let_def events_emit)
next
  case ErrNil
  assume root: "\<not> rootErr it"
  show ?thesis
  proof (cases "processErr it")
    case ErrNil
    with root \<open>awaitErr it = ErrNil\<close> show ?thesis
      by (simp add: run_iter_def Let_def events_emit events_report)
  next
    case ErrCanceled
    with root \<open>awaitErr it = ErrNil\<close> show ?thesis
      by (simp add: run_iter_def Let_def events_emit events_report)
  next
    case ErrOther
    with root \<open>awaitErr it = ErrNil\<close> show ?thesis
      by (cases "leaseDone it") (simp_all add: run_iter_def Let_def events_emit events_report)
  qed
qed

lemma run_loop_awaits_first:
  assumes "\<not> rootErr it"
  shows "\<exists>tr. events (snd (run_loop role pn bo (it # its) w)) = events w @ EvAwait role # tr"
proof -
  obtain b w1 where r: "run_iter role pn bo it w = (b, w1)" by (cases "run_iter role pn bo it w")
  from run_iter_awaits_first[OF assms, of role pn bo w] r obtain tr1 where
    t1: "events w1 = events w @ EvAwait role # tr1" by auto
  show ?thesis
  proof (cases b)
    case True
    with r t1 show ?thesis by simp
  next
    case False
    from run_loop_events[of role pn bo its w1] obtain tr2 where
      "events (snd (run_loop role pn bo its w1)) = events w1 @ tr2" by blast
    with False r t1 show ?thesis by simp
  qed
qed

text \<open>
  Claim C2. When the lease has been granted and the process function returns nil, the pass
  does exactly this: it asks for the lease, reports Running, calls the process function and
  releases the lease; it sleeps for no backoff, waits on no timer and does not touch the
  process-error metric. The loop then goes straight to the top of the next pass, where,
  the root context being live, the first thing it does is ask for the lease again.
\<close>

theorem run_nil_releases_and_retries:
  assumes "\<not> rootErr it" and "awaitErr it = ErrNil" and "processErr it = ErrNil"
  shows "run_iter role pn bo it w =
           (False, w\<lparr>internalState := updateState pn StateRunning (internalState w),
                     events := events w @ [EvAwait role, EvUpdateState pn StateRunning,
                                           EvProcess, EvCancel]\<rparr>)
     \<and> run_loop role pn bo (it # its) w =
         run_loop role pn bo its
           (w\<lparr>internalState := updateState pn StateRunning (internalState w),
              events := events w @ [EvAwait role, EvUpdateState pn StateRunning,
                                    EvProcess, EvCancel]\<rparr>)
     \<and> (\<forall>it' rest. its = it' # rest \<longrightarrow> \<not> rootErr it' \<longrightarrow>
          (\<exists>tr. events (snd (run_loop role pn bo (it # its) w)) =
             events w @ [EvAwait role, EvUpdateState pn StateRunning, EvProcess, EvCancel,
                         EvAwait role] @ tr))"
proof -
  let ?w1 = "w\<lparr>internalState := updateState pn StateRunning (internalState w),
                events := events w @ [EvAwait role, EvUpdateState pn StateRunning,
                                      EvProcess, EvCancel]\<rparr>"
  have a: "run_iter role pn bo it w = (False, ?w1)"
    using assms by (simp add: run_iter_def Let_def emit_def report_def)
  then have b: "run_loop role pn bo (it # its) w = run_loop role pn bo its ?w1" by simp
  have c: "\<forall>it' rest. its = it' # rest \<longrightarrow> \<not> rootErr it' \<longrightarrow>
          (\<exists>tr. events (snd (run_loop role pn bo (it # its) w)) =
             events w @ [EvAwait role, EvUpdateState pn StateRunning, EvProcess, EvCancel,
                         EvAwait role] @ tr)"
  proof (intro allI impI)
    fix it' rest assume i: "its = it' # rest" and r: "\<not> rootErr it'"
    from run_loop_awaits_first[OF r, of role pn bo rest ?w1] obtain tr where
      "events (snd (run_loop role pn bo (it' # rest) ?w1)) = events ?w1 @ EvAwait role # tr"
      by blast
    with b i show "\<exists>tr. events (snd (run_loop role pn bo (it # its) w)) =
             events w @ [EvAwait role, EvUpdateState pn StateRunning, EvProcess, EvCancel,
                         EvAwait role] @ tr" by simp
  qed
  from a b c show ?thesis by blast
qed

theorem run_nil_releases_and_retries_witness:
  "\<not> rootErr pass_nil \<and> awaitErr pass_nil = ErrNil \<and> processErr pass_nil = ErrNil
   \<and> \<not> rootErr pass_await_cancelled
   \<and> run_iter ''role'' ''p'' 1000 pass_nil example_workflow =
        (False, example_workflow\<lparr>internalState := [(''p'', StateRunning)],
                  events := [EvAwait ''role'', EvUpdateState ''p'' StateRunning,
                             EvProcess, EvCancel]\<rparr>)
   \<and> events (snd (run_loop ''role'' ''p'' 1000 [pass_nil, pass_await_cancelled] example_workflow)) =
        [EvAwait ''role'', EvUpdateState ''p'' StateRunning, EvProcess, EvCancel, EvAwait ''role'']"
proof -
  have h: "\<not> rootErr pass_nil" "awaitErr pass_nil = ErrNil" "processErr pass_nil = ErrNil"
    by (simp_all add: pass_nil_def)
  have h': "\<not> rootErr pass_await_cancelled" by (simp add: pass_await_cancelled_def)
  let ?w1 = "example_workflow\<lparr>internalState := [(''p'', StateRunning)],
                  events := [EvAwait ''role'', EvUpdateState ''p'' StateRunning,
                             EvProcess, EvCancel]\<rparr>"
  have s: "example_workflow\<lparr>internalState := updateState ''p'' StateRunning (internalState example_workflow),
              events := events example_workflow @ [EvAwait ''role'', EvUpdateState ''p'' StateRunning,
                                    EvProcess, EvCancel]\<rparr> = ?w1"
    by (simp add: example_workflow_def updateState_def)
  from run_nil_releases_and_retries[OF h, of "''role''" "''p''" 1000 example_workflow "[pass_await_cancelled]"]
  have a: "run_iter ''role'' ''p'' 1000 pass_nil example_workflow = (False, ?w1)"
    and b: "run_loop ''role'' ''p'' 1000 [pass_nil, pass_await_cancelled] example_workflow =
         run_loop ''role'' ''p'' 1000 [pass_await_cancelled] ?w1"
    unfolding s by blast+
  have "events (snd (run_loop ''role'' ''p'' 1000 [pass_await_cancelled] ?w1)) =
        [EvAwait ''role'', EvUpdateState ''p'' StateRunning, EvProcess, EvCancel, EvAwait ''role'']"
    by (simp add: run_iter_def pass_await_cancelled_def Let_def emit_def)
  with a b h h' show ?thesis by simp
qed

lemma map_of_updateState: "map_of (updateState pn s m) pn = Some s"
  by (simp add: updateState_def update_conv')

text \<open>
  Claim C3, as amended. The loop reports Idle once, when it is entered, and the first
  request for a lease follows that report at once; no pass reports Idle again. A pass that
  finds the root context cancelled does nothing but write the debug log line and return, so
  the loop exits as soon as a pass finds it cancelled; whenever the loop exits, by this way or on a cancelled
  request, Shutdown is the last state it reports and the state on record, and Shutdown is
  not reported before the exit.
\<close>

theorem run_reports_Idle_once_Shutdown_at_exit:
  "(\<exists>tr. events (snd (run role pn bo its w)) = events w @ EvUpdateState pn StateIdle # tr
         \<and> EvUpdateState pn StateIdle \<notin> set tr
         \<and> (fst (run role pn bo its w) \<longrightarrow>
               (\<exists>tr'. tr = tr' @ [EvUpdateState pn StateShutdown]
                      \<and> EvUpdateState pn StateShutdown \<notin> set tr'))
         \<and> (\<not> fst (run role pn bo its w) \<longrightarrow> EvUpdateState pn StateShutdown \<notin> set tr)
         \<and> (\<forall>it rest. its = it # rest \<longrightarrow> \<not> rootErr it \<longrightarrow> (\<exists>tr'. tr = EvAwait role # tr')))
   \<and> (fst (run role pn bo its w) \<longrightarrow>
         map_of (internalState (snd (run role pn bo its w))) pn = Some StateShutdown)
   \<and> ((\<exists>it \<in> set its. rootErr it) \<longrightarrow> fst (run role pn bo its w))
   \<and> (\<forall>it w'. rootErr it \<longrightarrow>
         fst (run_iter role pn bo it w')
         \<and> events (snd (run_iter role pn bo it w'))
             = events w' @ (if debugMode w' then [EvLogInfo role pn] else []))"
proof -
  let ?w0 = "report pn StateIdle w"
  obtain b w1 where l: "run_loop role pn bo its ?w0 = (b, w1)"
    by (cases "run_loop role pn bo its ?w0")
  from run_loop_events[of role pn bo its ?w0] l obtain tr0 where
    t0: "events w1 = events ?w0 @ tr0" "EvUpdateState pn StateIdle \<notin> set tr0"
        "EvUpdateState pn StateShutdown \<notin> set tr0" by auto
  have ev0: "events ?w0 = events w @ [EvUpdateState pn StateIdle]" by (rule events_report)
  have first: "\<forall>it rest. its = it # rest \<longrightarrow> \<not> rootErr it \<longrightarrow> (\<exists>tr'. tr0 = EvAwait role # tr')"
  proof (intro allI impI)
    fix it rest assume i: "its = it # rest" and r: "\<not> rootErr it"
    from run_loop_awaits_first[OF r, of role pn bo rest ?w0] i l obtain tr' where
      "events w1 = events ?w0 @ EvAwait role # tr'" by auto
    with t0(1) have "tr0 = EvAwait role # tr'" by simp
    then show "\<exists>tr'. tr0 = EvAwait role # tr'" by blast
  qed
  have part1: "\<exists>tr. events (snd (run role pn bo its w)) = events w @ EvUpdateState pn StateIdle # tr
         \<and> EvUpdateState pn StateIdle \<notin> set tr
         \<and> (fst (run role pn bo its w) \<longrightarrow>
               (\<exists>tr'. tr = tr' @ [EvUpdateState pn StateShutdown]
                      \<and> EvUpdateState pn StateShutdown \<notin> set tr'))
         \<and> (\<not> fst (run role pn bo its w) \<longrightarrow> EvUpdateState pn StateShutdown \<notin> set tr)
         \<and> (\<forall>it rest. its = it # rest \<longrightarrow> \<not> rootErr it \<longrightarrow> (\<exists>tr'. tr = EvAwait role # tr'))"
  proof (cases b)
    case True
    with l have r: "run role pn bo its w = (True, report pn StateShutdown w1)"
      by (simp add: run_def)
    have "events (snd (run role pn bo its w))
            = events w @ EvUpdateState pn StateIdle # (tr0 @ [EvUpdateState pn StateShutdown])"
      using r t0(1) ev0 by (simp add: events_report)
    moreover have "EvUpdateState pn StateIdle \<notin> set (tr0 @ [EvUpdateState pn StateShutdown])"
      using t0(2) by simp
    moreover have "\<forall>it rest. its = it # rest \<longrightarrow> \<not> rootErr it \<longrightarrow>
        (\<exists>tr'. tr0 @ [EvUpdateState pn StateShutdown] = EvAwait role # tr')"
      using first by auto
    ultimately show ?thesis using r t0(3) by auto
  next
    case False
    with l have r: "run role pn bo its w = (False, w1)" by (simp add: run_def)
    have "events (snd (run role pn bo its w)) = events w @ EvUpdateState pn StateIdle # tr0"
      using r t0(1) ev0 by simp
    with r t0(2,3) first show ?thesis by auto
  qed
  have part2: "fst (run role pn bo its w) \<longrightarrow>
         map_of (internalState (snd (run role pn bo its w))) pn = Some StateShutdown"
  proof (cases b)
    case True
    with l have "run role pn bo its w = (True, report pn StateShutdown w1)"
      by (simp add: run_def)
    then show ?thesis by (simp add: internalState_report map_of_updateState)
  next
    case False
    with l show ?thesis by (simp add: run_def)
  qed
  have part3: "(\<exists>it \<in> set its. rootErr it) \<longrightarrow> fst (run role pn bo its w)"
  proof
    assume "\<exists>it \<in> set its. rootErr it"
    from run_loop_exits[OF this, of role pn bo ?w0] l have "b" by simp
    with l show "fst (run role pn bo its w)" by (simp add: run_def)
  qed
  have part4: "\<forall>it w'. rootErr it \<longrightarrow>
         fst (run_iter role pn bo it w')
         \<and> events (snd (run_iter role pn bo it w'))
             = events w' @ (if debugMode w' then [EvLogInfo role pn] else [])"
    by (simp add: run_iter_root_cancelled events_emit)
  from part1 part2 part3 part4 show ?thesis by blast
qed

theorem run_reports_Idle_once_Shutdown_at_exit_witness:
  "rootErr pass_root_cancelled
   \<and> \<not> rootErr pass_nil
   \<and> run ''role'' ''p'' 1000 [pass_nil, pass_root_cancelled] example_workflow =
       (True, example_workflow\<lparr>internalState := [(''p'', StateShutdown)],
                events := [EvUpdateState ''p'' StateIdle, EvAwait ''role'',
                           EvUpdateState ''p'' StateRunning, EvProcess, EvCancel,
                           EvUpdateState ''p'' StateShutdown]\<rparr>)
   \<and> map_of (internalState (snd (run ''role'' ''p'' 1000 [pass_nil, pass_root_cancelled]
        example_workflow))) ''p'' = Some StateShutdown"
proof -
  have h: "rootErr pass_root_cancelled" by (simp add: pass_root_cancelled_def)
  have h': "\<not> rootErr pass_nil" by (simp add: pass_nil_def)
  have e: "run ''role'' ''p'' 1000 [pass_nil, pass_root_cancelled] example_workflow =
       (True, example_workflow\<lparr>internalState := [(''p'', StateShutdown)],
                events := [EvUpdateState ''p'' StateIdle, EvAwait ''role'',
                           EvUpdateState ''p'' StateRunning, EvProcess, EvCancel,
                           EvUpdateState ''p'' StateShutdown]\<rparr>)"
    by (simp add: run_def run_iter_def pass_nil_def pass_root_cancelled_def Let_def emit_def
        report_def updateState_def example_workflow_def)
  from h have x: "\<exists>it \<in> set [pass_nil, pass_root_cancelled]. rootErr it" by simp
  from run_reports_Idle_once_Shutdown_at_exit[of "''role''" "''p''" 1000
      "[pass_nil, pass_root_cancelled]" example_workflow] x
  have f: "fst (run ''role'' ''p'' 1000 [pass_nil, pass_root_cancelled] example_workflow)"
    and m: "fst (run ''role'' ''p'' 1000 [pass_nil, pass_root_cancelled] example_workflow) \<longrightarrow>
      map_of (internalState (snd (run ''role'' ''p'' 1000 [pass_nil, pass_root_cancelled]
        example_workflow))) ''p'' = Some StateShutdown"
    by blast+
  from f m h h' e show ?thesis by blast
qed

text \<open>
  The claim as first stated fails: in a second pass the lease is requested with no new
  report of Idle. Here the first pass holds the lease and the process function returns nil,
  and the second request is made with Running on record.
\<close>

theorem run_second_pass_not_Idle_counterexample:
  "events (snd (run ''role'' ''p'' 1000 [pass_nil, pass_await_cancelled] example_workflow)) =
     [EvUpdateState ''p'' StateIdle, EvAwait ''role'', EvUpdateState ''p'' StateRunning,
      EvProcess, EvCancel, EvAwait ''role'', EvUpdateState ''p'' StateShutdown]
   \<and> states_at_await ''p'' StateUnknown
        (events (snd (run ''role'' ''p'' 1000 [pass_nil, pass_await_cancelled] example_workflow)))
       = [StateIdle, StateRunning]"
proof -
  have e: "events (snd (run ''role'' ''p'' 1000 [pass_nil, pass_await_cancelled] example_workflow)) =
     [EvUpdateState ''p'' StateIdle, EvAwait ''role'', EvUpdateState ''p'' StateRunning,
      EvProcess, EvCancel, EvAwait ''role'', EvUpdateState ''p'' StateShutdown]"
    by (simp add: run_def run_iter_def pass_nil_def pass_await_cancelled_def Let_def emit_def
        report_def example_workflow_def)
  show ?thesis unfolding e by simp
qed

section \<open>Properties of update\<close>

lemma header_names_distinct:
  "distinct [HeaderWorkflowForeignID, HeaderWorkflowName, HeaderTopic, HeaderRunID]"
  by (simp add: HeaderWorkflowForeignID_def HeaderWorkflowName_def HeaderTopic_def HeaderRunID_def)

text \<open>
  Claim C4. The function that \<open>update\<close> hands to the store sets the record's ID to the
  identifier it is called with, and makes one \<open>Send\<close>, on a producer for the topic of the
  record, with that identifier as the key, the status of the record, and exactly four
  headers: workflow-foreign-id, workflow-name, topic and run-id, holding the foreign ID, the
  workflow name, the topic and the run ID of the record. The producer is closed when the
  \<open>Send\<close> succeeds. A store that calls the function with the identifier \<open>k\<close> gets
  exactly this.
\<close>

theorem update_publishes:
  "update Topic str store wr = store wr (publish Topic str)
   \<and> update Topic str (\<lambda>r f. f r k) wr = publish Topic str wr k
   \<and> fst (snd (publish Topic str wr k)) = wr\<lparr>ID := k\<rparr>
   \<and> ID (fst (snd (publish Topic str wr k))) = k
   \<and> snd (snd (publish Topic str wr k)) =
       [NewProducer (Topic (WorkflowName wr) (Status wr)),
        Send k (Status wr)
          [(''workflow-foreign-id'', ForeignID wr), (''workflow-name'', WorkflowName wr),
           (''topic'', Topic (WorkflowName wr) (Status wr)), (''run-id'', RunID wr)]]
       @ (if sendErr str = None then [Close] else [])
   \<and> fst (publish Topic str wr k) = (if sendErr str = None then closeErr str else sendErr str)"
  by (cases "sendErr str")
     (simp_all add: update_def publish_def Let_def HeaderWorkflowForeignID_def
        HeaderWorkflowName_def HeaderTopic_def HeaderRunID_def)

theorem update_publishes_witness:
  "update example_Topic example_streamer (\<lambda>r f. f r 42) example_record =
     (None, example_record\<lparr>ID := 42\<rparr>,
      [NewProducer ''wf-2'',
       Send 42 2 [(''workflow-foreign-id'', ''order-9''), (''workflow-name'', ''wf''),
                  (''topic'', ''wf-2''), (''run-id'', ''run-1'')],
       Close])"
proof -
  from update_publishes[of example_Topic example_streamer "\<lambda>r f. f r 42" example_record 42]
  have u: "update example_Topic example_streamer (\<lambda>r f. f r 42) example_record
            = publish example_Topic example_streamer example_record 42"
    and r: "fst (snd (publish example_Topic example_streamer example_record 42))
            = example_record\<lparr>ID := 42\<rparr>"
    and c: "snd (snd (publish example_Topic example_streamer example_record 42)) =
       [NewProducer (example_Topic (WorkflowName example_record) (Status example_record)),
        Send 42 (Status example_record)
          [(''workflow-foreign-id'', ForeignID example_record),
           (''workflow-name'', WorkflowName example_record),
           (''topic'', example_Topic (WorkflowName example_record) (Status example_record)),
           (''run-id'', RunID example_record)]]
       @ (if sendErr example_streamer = None then [Close] else [])"
    and e: "fst (publish example_Topic example_streamer example_record 42)
            = (if sendErr example_streamer = None then closeErr example_streamer
               else sendErr example_streamer)"
    by blast+
  have "publish example_Topic example_streamer example_record 42 =
     (None, example_record\<lparr>ID := 42\<rparr>,
      [NewProducer ''wf-2'',
       Send 42 2 [(''workflow-foreign-id'', ''order-9''), (''workflow-name'', ''wf''),
                  (''topic'', ''wf-2''), (''run-id'', ''run-1'')],
       Close])"
    using r c e
    by (simp add: prod_eq_iff example_record_def example_streamer_def example_Topic_def)
  with u show ?thesis by simp
qed


end
